theory Spec2Isabelle
  imports Main "HOL-Library.Word" "HOL-Library.Sublist"
begin

section \<open>The mail worker (package mailer)\<close>

text \<open>
  The worker talks to three things it does not own: the context (cancellation), the
  dialer with the senders it hands out, and the messages with their callbacks.  The
  embedding keeps them in one record, the world: what the outside will answer to the
  next call, and the trace of every call made so far.  Each Go function becomes a
  function from the world to its result and the world after it.

  Log statements have no effect on the state and are left out (the rendered message
  is taken to carry the To header the log fields read).
\<close>

subsection \<open>Errors\<close>

text \<open>
  A Go \<open>error\<close> is an interface value.  The code tells three dynamic types apart:
  \<open>*textproto.Error\<close> (an SMTP reply with its code), its own
  \<open>*ErrMaxConnectAttempts\<close> (with the error it wraps, which the struct allows to be
  nil), and anything else.
\<close>

datatype error =
    TextprotoError int string
  | OtherError string
  | ErrMaxConnectAttempts "error option"

subsection \<open>Messages, dialers, senders\<close>

text \<open>
  A \<open>Sender\<close> is the connection a successful \<open>Dial\<close> returns; it is named by the
  number of the \<open>Dial\<close> call that opened it.  A variable of the interface type that
  holds nil is \<open>None\<close>.
\<close>

type_synonym Sender = nat

datatype Dialer = Dialer nat

text \<open>
  A \<open>Mail\<close> is known to the worker through its interface only: what \<open>Generate\<close> and
  \<open>GetDialer\<close> return.  \<open>Backoff\<close>, \<open>Error\<close> and \<open>Success\<close> are calls into the
  application, recorded in the trace; the worker drops what they return.
\<close>

record Mail =
  mail_id :: nat
  Generate :: "error option"
  GetDialer :: "error + Dialer"

record MailBundle =
  Delay :: "64 word"
  Mails :: "Mail list"

datatype event =
    EvDial Dialer "error + Sender"
  | EvGenerate Mail
  | EvSend Sender Mail
  | EvReset Sender
  | EvClose Sender
  | EvSuccess Mail
  | EvBackoff Mail error
  | EvError Mail error
  | EvTick

text \<open>
  The world.  \<open>ctx\<close> is the context: \<open>None\<close> is never cancelled, \<open>Some k\<close> lets the
  next \<open>k\<close> looks at \<open>ctx.Done()\<close> find it open and is cancelled from then on (a
  cancelled context stays cancelled).  \<open>dial_oracle\<close> and \<open>send_oracle\<close> give the
  answer to the \<open>n\<close>-th call of \<open>Dial\<close> and of \<open>gomail.Send\<close>; \<open>ndial\<close> and
  \<open>nsend\<close> count the calls made.
\<close>

record World =
  ctx :: "nat option"
  dial_oracle :: "nat \<Rightarrow> error option"
  send_oracle :: "nat \<Rightarrow> error option"
  ndial :: nat
  nsend :: nat
  trace :: "event list"

text \<open>How a function ends: it returns, or it panics (which ends the process).\<close>

datatype exit = Returned | Panicked

definition emit :: "event \<Rightarrow> World \<Rightarrow> World" where
  "emit e w = w\<lparr>trace := trace w @ [e]\<rparr>"

text \<open>One look at \<open>ctx.Done()\<close> in a \<open>select\<close>.\<close>

definition ctx_Done :: "World \<Rightarrow> bool \<times> World" where
  "ctx_Done w =
     (case ctx w of
        None \<Rightarrow> (False, w)
      | Some 0 \<Rightarrow> (True, w)
      | Some (Suc k) \<Rightarrow> (False, w\<lparr>ctx := Some k\<rparr>))"

text \<open>\<open>dialer.Dial()\<close>: a sender and no error, or no sender and an error.\<close>

definition Dial :: "Dialer \<Rightarrow> World \<Rightarrow> (Sender option \<times> error option) \<times> World" where
  "Dial dialer w =
     (case dial_oracle w (ndial w) of
        None \<Rightarrow> ((Some (ndial w), None),
                  emit (EvDial dialer (Inr (ndial w))) (w\<lparr>ndial := Suc (ndial w)\<rparr>))
      | Some err \<Rightarrow> ((None, Some err),
                  emit (EvDial dialer (Inl err)) (w\<lparr>ndial := Suc (ndial w)\<rparr>)))"

subsection \<open>dialHost\<close>

text \<open>
  \<open>MaxReconnectAttempts\<close> is a package variable; it is taken at the value it is
  declared with.
\<close>

definition MaxReconnectAttempts :: "64 word" where
  "MaxReconnectAttempts = 10"

text \<open>
  The \<open>for\<close> loop of \<open>dialHost\<close>, with \<open>sendAttempt\<close> a Go \<open>int\<close> (64 bits, \<open>++\<close>
  wraps).
\<close>

function dialHost_loop ::
  "Dialer \<Rightarrow> 64 word \<Rightarrow> World \<Rightarrow> (Sender option \<times> error option) \<times> World" where
  "dialHost_loop dialer sendAttempt w =
     (case ctx_Done w of
        (True, w1) \<Rightarrow> ((None, None), w1)
      | (False, w1) \<Rightarrow>
          (case Dial dialer w1 of
             ((sender, None), w2) \<Rightarrow> ((sender, None), w2)
           | ((sender, Some err), w2) \<Rightarrow>
               (if sendAttempt + 1 = MaxReconnectAttempts
                then ((sender, Some (ErrMaxConnectAttempts (Some err))), w2)
                else dialHost_loop dialer (sendAttempt + 1) w2)))"
  by pat_completeness auto
termination
proof (relation "measure (\<lambda>(dialer, sendAttempt, w). unat (9 - sendAttempt))", goal_cases)
  case 1
  show ?case by simp
next
  case (2 dialer sendAttempt w)
  define left where "left = 9 - sendAttempt"
  from 2 have "sendAttempt + 1 \<noteq> 10"
    by (simp add: MaxReconnectAttempts_def)
  then have "left \<noteq> 0"
    by (auto simp: left_def)
  then have "unat (left - 1) < unat left"
    by (simp add: unat_minus_one unat_gt_0)
  then show ?case
    by (simp add: left_def)
qed

definition dialHost :: "Dialer \<Rightarrow> World \<Rightarrow> (Sender option \<times> error option) \<times> World" where
  "dialHost dialer w = dialHost_loop dialer 0 w"

subsection \<open>errorMail\<close>

fun errorMail :: "error \<Rightarrow> Mail list \<Rightarrow> World \<Rightarrow> World" where
  "errorMail err [] w = w"
| "errorMail err (m # ms) w = errorMail err ms (emit (EvError m err) w)"

subsection \<open>sendMail\<close>

text \<open>
  \<open>gomail.Send(sender, message)\<close> on a sender that is not nil: the world answers
  with what the call returns.
\<close>

definition gomail_Send :: "Sender \<Rightarrow> Mail \<Rightarrow> World \<Rightarrow> error option \<times> World" where
  "gomail_Send sender m w =
     (send_oracle w (nsend w), emit (EvSend sender m) (w\<lparr>nsend := Suc (nsend w)\<rparr>))"

text \<open>How one pass through the body of a \<open>for\<close> loop ends.\<close>

datatype ctl = Continue | Break | Return | Panic

text \<open>
  The body of the \<open>range\<close> loop of \<open>sendMail\<close> for the message \<open>m = ms[i]\<close>, with
  \<open>ms_i = ms[i:]\<close> and the variable \<open>sender\<close> as the pass finds it; the result
  carries \<open>sender\<close> as the pass leaves it.  A call through a nil \<open>sender\<close> panics.
\<close>

definition sendMail_body ::
  "Dialer \<Rightarrow> Sender option \<Rightarrow> Mail \<Rightarrow> Mail list \<Rightarrow> World \<Rightarrow> ctl \<times> Sender option \<times> World" where
  "sendMail_body dialer sender m ms_i w =
     (case ctx_Done w of
        (True, w1) \<Rightarrow> (Return, sender, w1)
      | (False, w1) \<Rightarrow>
          (case Generate m of
             Some err \<Rightarrow> (Continue, sender, emit (EvError m err) (emit (EvGenerate m) w1))
           | None \<Rightarrow>
               (case sender of
                  None \<Rightarrow> (Panic, sender, emit (EvGenerate m) w1)
                | Some c \<Rightarrow>
                    (case gomail_Send c m (emit (EvGenerate m) w1) of
                       (None, w2) \<Rightarrow> (Continue, sender, emit (EvSuccess m) w2)
                     | (Some err, w2) \<Rightarrow>
                         (case err of
                            TextprotoError code txt \<Rightarrow>
                              (if 400 \<le> code \<and> code \<le> 499
                               then (Continue, sender, emit (EvReset c) (emit (EvBackoff m err) w2))
                               else if 500 \<le> code \<and> code \<le> 599
                               then (Continue, sender, emit (EvReset c) (emit (EvError m err) w2))
                               else (Continue, sender, emit (EvReset c) (emit (EvError m err) w2)))
                          | _ \<Rightarrow>
                              (case dialHost dialer w2 of
                                 ((sender', Some err'), w3) \<Rightarrow>
                                   (Break, sender', errorMail err' ms_i w3)
                               | ((sender', None), w3) \<Rightarrow>
                                   (Continue, sender', emit (EvBackoff m err) w3)))))))"

fun sendMail_loop :: "Dialer \<Rightarrow> Sender option \<Rightarrow> Mail list \<Rightarrow> World \<Rightarrow> exit \<times> World" where
  "sendMail_loop dialer sender [] w = (Returned, w)"
| "sendMail_loop dialer sender (m # ms) w =
     (case sendMail_body dialer sender m (m # ms) w of
        (Continue, sender', w') \<Rightarrow> sendMail_loop dialer sender' ms w'
      | (Break, sender', w') \<Rightarrow> (Returned, w')
      | (Return, sender', w') \<Rightarrow> (Returned, w')
      | (Panic, sender', w') \<Rightarrow> (Panicked, w'))"

text \<open>
  \<open>defer sender.Close()\<close> takes the value \<open>sender\<close> holds when the \<open>defer\<close>
  statement runs: the deferred call closes that connection when \<open>sendMail\<close> ends,
  whatever \<open>sender\<close> holds by then.  On a nil \<open>sender\<close> (\<open>dialHost\<close> returned nil and
  nil) the method value cannot be taken and \<open>sendMail\<close> panics.
\<close>

definition sendMail :: "Dialer \<Rightarrow> Mail list \<Rightarrow> World \<Rightarrow> exit \<times> World" where
  "sendMail dialer ms w =
     (case dialHost dialer w of
        ((sender, Some err), w1) \<Rightarrow> (Returned, errorMail err ms w1)
      | ((None, None), w1) \<Rightarrow> (Panicked, w1)
      | ((Some c, None), w1) \<Rightarrow>
          (case sendMail_loop dialer (Some c) ms w1 of
             (ex, w2) \<Rightarrow> (ex, emit (EvClose c) w2)))"

subsection \<open>sendDelayedMail\<close>

definition time_Second :: "64 word" where
  "time_Second = 1000000000"

text \<open>\<open>interval := time.Duration(delay) * time.Second\<close>, an \<open>int64\<close> product.\<close>

definition interval :: "64 word \<Rightarrow> 64 word" where
  "interval delay = delay * time_Second"

text \<open>
  The \<open>range\<close> loop of \<open>sendDelayedMail\<close>.  The \<open>select\<close> waits for the context or
  the ticker: it takes the tick (recorded in the trace) unless it finds the context
  cancelled.
\<close>

fun sendDelayedMail_loop :: "Dialer \<Rightarrow> Mail list \<Rightarrow> World \<Rightarrow> exit \<times> World" where
  "sendDelayedMail_loop dialer [] w = (Returned, w)"
| "sendDelayedMail_loop dialer (m # ms) w =
     (case ctx_Done w of
        (True, w1) \<Rightarrow> (Returned, w1)
      | (False, w1) \<Rightarrow>
          (case sendMail dialer [m] (emit EvTick w1) of
             (Panicked, w2) \<Rightarrow> (Panicked, w2)
           | (Returned, w2) \<Rightarrow> sendDelayedMail_loop dialer ms w2))"

text \<open>\<open>time.NewTicker\<close> panics on an interval that is not positive.\<close>

definition sendDelayedMail :: "Dialer \<Rightarrow> Mail list \<Rightarrow> 64 word \<Rightarrow> World \<Rightarrow> exit \<times> World" where
  "sendDelayedMail dialer ms delay w =
     (if sint (interval delay) \<le> 0 then (Panicked, w)
      else sendDelayedMail_loop dialer ms w)"

subsection \<open>Start\<close>

text \<open>
  What \<open>Start\<close> runs, in a goroutine of its own, for a bundle \<open>mb\<close> it took from the
  queue.  \<open>ms[0]\<close> on an empty slice panics.
\<close>

definition Start_go :: "MailBundle \<Rightarrow> World \<Rightarrow> exit \<times> World" where
  "Start_go mb w =
     (let ms = Mails mb in
      case ms of
        [] \<Rightarrow> (Panicked, w)
      | m0 # _ \<Rightarrow>
          (case GetDialer m0 of
             Inl err \<Rightarrow> (Returned, errorMail err ms w)
           | Inr dialer \<Rightarrow>
               (if sint (Delay mb) \<le> 0 then sendMail dialer ms w
                else sendDelayedMail dialer ms (Delay mb) w)))"

section \<open>The webhook sender (package webhook)\<close>

text \<open>
  Go strings and byte slices are byte sequences: both are \<open>string\<close> here, and
  \<open>[]byte(secret)\<close> is the identity.  The packages \<open>Send\<close> calls are outside this
  repository; what they compute is a parameter of the model.
\<close>

record Request =
  Method :: string
  URL :: string
  Header :: "string \<rightharpoonup> string"
  Body :: string

record Response =
  StatusCode :: int
  Status :: string

record Env =
  json_Marshal :: "string \<Rightarrow> error + string"
  url_Parse :: "string \<Rightarrow> error option"
  hmac_sha256 :: "string \<Rightarrow> string \<Rightarrow> string"
  client_Do :: "Request \<Rightarrow> error + Response"

definition MinHttpStatusErrorCode :: int where
  "MinHttpStatusErrorCode = 400"

definition SignatureHeader :: string where
  "SignatureHeader = ''X-Gophish-Signature''"

text \<open>\<open>hex.EncodeToString\<close>: two lower-case hexadecimal digits for each byte.\<close>

definition hex_digit :: "nat \<Rightarrow> char" where
  "hex_digit n = ''0123456789abcdef'' ! n"

definition hex_EncodeToString :: "string \<Rightarrow> string" where
  "hex_EncodeToString bs =
     concat (map (\<lambda>b. [hex_digit (of_char b div 16), hex_digit (of_char b mod 16)]) bs)"

text \<open>
  \<open>http.NewRequest\<close> returns a nil request and an error when the URL does not parse
  (the method \<open>POST\<close> is always accepted).
\<close>

definition http_NewRequest ::
  "Env \<Rightarrow> string \<Rightarrow> string \<Rightarrow> string \<Rightarrow> Request option \<times> error option" where
  "http_NewRequest env method url body =
     (case url_Parse env url of
        Some err \<Rightarrow> (None, Some err)
      | None \<Rightarrow> (Some \<lparr>Method = method, URL = url, Header = Map.empty, Body = body\<rparr>, None))"

definition Header_Set :: "string \<Rightarrow> string \<Rightarrow> Request \<Rightarrow> Request" where
  "Header_Set key v req = req\<lparr>Header := (Header req)(key \<mapsto> v)\<rparr>"

text \<open>\<open>sign\<close>.  Writing to a hash never fails, so the error it returns is nil.\<close>

definition sign :: "Env \<Rightarrow> string \<Rightarrow> string \<Rightarrow> string \<times> error option" where
  "sign env secret data = (hex_EncodeToString (hmac_sha256 env secret data), None)"

datatype send_exit = SendReturned "error option" | SendPanicked

text \<open>
  \<open>Send\<close>, with the requests it hands to \<open>client.Do\<close>.  The source passes \<open>data\<close>
  (declared \<open>interface{}\<close>) to \<open>sign\<close>, which takes bytes; the model gives \<open>data\<close> the
  type at which that call is typed.  The error of \<open>http.NewRequest\<close> is overwritten
  by the one of \<open>sign\<close> before anything reads it, and \<open>req.Header\<close> on a nil request
  panics.
\<close>

definition Send :: "Env \<Rightarrow> string \<Rightarrow> string \<Rightarrow> string \<Rightarrow> send_exit \<times> Request list" where
  "Send env url secret data =
     (case json_Marshal env data of
        Inl err \<Rightarrow> (SendReturned (Some err), [])
      | Inr jsonData \<Rightarrow>
          (case http_NewRequest env ''POST'' url jsonData of
             (req, err) \<Rightarrow>
               (case sign env secret data of
                  (signat, err) \<Rightarrow>
                    (case req of
                       None \<Rightarrow> (SendPanicked, [])
                     | Some r \<Rightarrow>
                         (let r1 = Header_Set SignatureHeader signat r;
                              r2 = Header_Set ''Content-Type'' ''application/json'' r1
                          in case client_Do env r2 of
                               Inl err \<Rightarrow> (SendReturned (Some err), [r2])
                             | Inr resp \<Rightarrow>
                                 (if MinHttpStatusErrorCode \<le> StatusCode resp
                                  then (SendReturned
                                          (Some (OtherError
                                             (''http status of response: '' @ Status resp))),
                                        [r2])
                                  else (SendReturned None, [r2])))))))"

section \<open>Definitions for the proofs\<close>

text \<open>
  The world after \<open>n\<close> calls of \<open>Dial\<close> in a row have failed with the errors
  \<open>e 0\<close>, ..., \<open>e (n - 1)\<close>, each behind a look at the context.
\<close>

definition after_failed_dials :: "Dialer \<Rightarrow> (nat \<Rightarrow> error) \<Rightarrow> nat \<Rightarrow> World \<Rightarrow> World" where
  "after_failed_dials dialer e n w =
     w\<lparr>ctx := map_option (\<lambda>k. k - n) (ctx w), ndial := ndial w + n,
       trace := trace w @ map (\<lambda>j. EvDial dialer (Inl (e j))) [0..<n]\<rparr>"

text \<open>
  What the loop of \<open>sendMail\<close> may add to the trace while every connection it holds
  was opened by the \<open>n0\<close>-th call of \<open>Dial\<close> or a later one: it sends and resets on
  such connections only, it closes nothing, and it waits for no tick.
\<close>

fun loop_event :: "nat \<Rightarrow> event \<Rightarrow> bool" where
  "loop_event n0 (EvSend x m) = (n0 \<le> x)"
| "loop_event n0 (EvReset x) = (n0 \<le> x)"
| "loop_event n0 (EvClose x) = False"
| "loop_event n0 EvTick = False"
| "loop_event n0 _ = True"

text \<open>
  The variable \<open>sender\<close> between two passes of the loop: a connection opened by the
  \<open>n0\<close>-th \<open>Dial\<close> or later, or nil with the context cancelled.
\<close>

definition sender_ok :: "nat \<Rightarrow> Sender option \<Rightarrow> World \<Rightarrow> bool" where
  "sender_ok n0 s w = (case s of Some c \<Rightarrow> n0 \<le> c | None \<Rightarrow> ctx w = Some 0)"

text \<open>The messages a trace notifies an outcome to, in the order of the calls.\<close>

fun outcome_of :: "event \<Rightarrow> Mail list" where
  "outcome_of (EvSuccess m) = [m]"
| "outcome_of (EvBackoff m err) = [m]"
| "outcome_of (EvError m err) = [m]"
| "outcome_of _ = []"

definition outcomes :: "event list \<Rightarrow> Mail list" where
  "outcomes es = concat (map outcome_of es)"

subsection \<open>Sample inputs\<close>

text \<open>
  A message that renders; a world in which nothing has happened yet; the same world
  once \<open>sendMail\<close> has opened connection 0; and stand-ins for the packages \<open>Send\<close>
  calls (\<open>hmac_sha256\<close> is not the real function here, only one that tells its
  inputs apart).
\<close>

definition mail :: "nat \<Rightarrow> Mail" where
  "mail i = \<lparr>mail_id = i, Generate = None, GetDialer = Inr (Dialer 0)\<rparr>"

definition world :: "nat option \<Rightarrow> (nat \<Rightarrow> error option) \<Rightarrow> (nat \<Rightarrow> error option) \<Rightarrow> World" where
  "world c d s = \<lparr>ctx = c, dial_oracle = d, send_oracle = s, ndial = 0, nsend = 0, trace = []\<rparr>"

definition world_connected ::
  "nat option \<Rightarrow> (nat \<Rightarrow> error option) \<Rightarrow> (nat \<Rightarrow> error option) \<Rightarrow> World" where
  "world_connected c d s =
     \<lparr>ctx = c, dial_oracle = d, send_oracle = s, ndial = 1, nsend = 0,
      trace = [EvDial (Dialer 0) (Inr 0)]\<rparr>"

definition env0 :: Env where
  "env0 =
     \<lparr>json_Marshal = (\<lambda>d. Inr (''['' @ d @ '']'')),
      url_Parse = (\<lambda>u. if u = '':'' then Some (OtherError ''missing protocol scheme'') else None),
      hmac_sha256 = (\<lambda>k d. k @ d),
      client_Do = (\<lambda>r. Inr \<lparr>StatusCode = 200, Status = ''200 OK''\<rparr>)\<rparr>"

section \<open>The context, the trace and dialHost\<close>

declare dialHost_loop.simps [simp del]

lemma emit_fields [simp]:
  "ctx (emit e w) = ctx w" "dial_oracle (emit e w) = dial_oracle w"
  "send_oracle (emit e w) = send_oracle w" "ndial (emit e w) = ndial w"
  "nsend (emit e w) = nsend w" "trace (emit e w) = trace w @ [e]"
  by (simp_all add: emit_def)

lemma ctx_Done_cancelled: "ctx w = Some 0 \<Longrightarrow> ctx_Done w = (True, w)"
  by (simp add: ctx_Done_def)

lemma ctx_Done_open:
  "ctx w \<noteq> Some 0 \<Longrightarrow> ctx_Done w = (False, w\<lparr>ctx := map_option (\<lambda>k. k - 1) (ctx w)\<rparr>)"
  by (auto simp: ctx_Done_def split: option.splits nat.splits)

lemma ctx_Done_never: "ctx w = None \<Longrightarrow> ctx_Done w = (False, w)"
  by (simp add: ctx_Done_def)

lemma errorMail_eq:
  "errorMail err ms w = w\<lparr>trace := trace w @ map (\<lambda>m. EvError m err) ms\<rparr>"
  by (induction ms arbitrary: w) (simp_all add: emit_def)

lemma of_nat_ne_10:
  assumes "n < 10" shows "(of_nat n :: 64 word) \<noteq> 10"
proof
  assume "(of_nat n :: 64 word) = 10"
  then have "unat (of_nat n :: 64 word) = unat (10 :: 64 word)" by simp
  moreover have "unat (of_nat n :: 64 word) = n"
    using assms by (simp add: unat_of_nat)
  ultimately show False using assms by simp
qed

lemma after_failed_dials_fields [simp]:
  "ctx (after_failed_dials dialer e n w) = map_option (\<lambda>k. k - n) (ctx w)"
  "ndial (after_failed_dials dialer e n w) = ndial w + n"
  "dial_oracle (after_failed_dials dialer e n w) = dial_oracle w"
  "send_oracle (after_failed_dials dialer e n w) = send_oracle w"
  "nsend (after_failed_dials dialer e n w) = nsend w"
  "trace (after_failed_dials dialer e n w) = trace w @ map (\<lambda>j. EvDial dialer (Inl (e j))) [0..<n]"
  by (simp_all add: after_failed_dials_def)

lemma after_failed_dials_Suc:
  "after_failed_dials dialer e (Suc n) w =
   (after_failed_dials dialer e n w)
     \<lparr>ctx := map_option (\<lambda>k. k - 1) (ctx (after_failed_dials dialer e n w)),
      ndial := Suc (ndial (after_failed_dials dialer e n w)),
      trace := trace (after_failed_dials dialer e n w) @ [EvDial dialer (Inl (e n))]\<rparr>"
  by (simp add: after_failed_dials_def option.map_comp comp_def)

lemma dialHost_loop_cancelled:
  "ctx w = Some 0 \<Longrightarrow> dialHost_loop dialer a w = ((None, None), w)"
  by (subst dialHost_loop.simps) (simp add: ctx_Done_cancelled)

lemma dialHost_loop_success:
  assumes "ctx w \<noteq> Some 0" "dial_oracle w (ndial w) = None"
  shows "dialHost_loop dialer a w =
         ((Some (ndial w), None),
          w\<lparr>ctx := map_option (\<lambda>k. k - 1) (ctx w), ndial := Suc (ndial w),
            trace := trace w @ [EvDial dialer (Inr (ndial w))]\<rparr>)"
  using assms
  by (subst dialHost_loop.simps) (simp add: ctx_Done_open Dial_def emit_def)

lemma dialHost_loop_last:
  assumes "ctx w \<noteq> Some 0" "dial_oracle w (ndial w) = Some err"
  shows "dialHost_loop dialer 9 w =
         ((None, Some (ErrMaxConnectAttempts (Some err))),
          w\<lparr>ctx := map_option (\<lambda>k. k - 1) (ctx w), ndial := Suc (ndial w),
            trace := trace w @ [EvDial dialer (Inl err)]\<rparr>)"
  using assms
  by (subst dialHost_loop.simps)
     (simp add: ctx_Done_open Dial_def emit_def MaxReconnectAttempts_def)

lemma dialHost_loop_failed_step:
  assumes "ctx w \<noteq> Some 0" "dial_oracle w (ndial w) = Some err" "Suc n < 10"
  shows "dialHost_loop dialer (of_nat n) w =
         dialHost_loop dialer (of_nat (Suc n))
           (w\<lparr>ctx := map_option (\<lambda>k. k - 1) (ctx w), ndial := Suc (ndial w),
              trace := trace w @ [EvDial dialer (Inl err)]\<rparr>)"
  using assms of_nat_ne_10 [of "Suc n"]
  by (subst dialHost_loop.simps)
     (simp add: ctx_Done_open Dial_def MaxReconnectAttempts_def emit_def add.commute)

lemma dialHost_loop_failed_prefix:
  assumes "n < 10"
    and "\<forall>j<n. dial_oracle w (ndial w + j) = Some (e j)"
    and "ctx w = None \<or> (\<exists>k. ctx w = Some k \<and> n \<le> k)"
  shows "dialHost_loop dialer 0 w = dialHost_loop dialer (of_nat n) (after_failed_dials dialer e n w)"
  using assms
proof (induction n)
  case 0
  then show ?case by (simp add: after_failed_dials_def option.map_ident)
next
  case (Suc n)
  let ?w = "after_failed_dials dialer e n w"
  have "dialHost_loop dialer 0 w = dialHost_loop dialer (of_nat n) ?w"
    using Suc by auto
  also have "\<dots> = dialHost_loop dialer (of_nat (Suc n))
           (?w\<lparr>ctx := map_option (\<lambda>k. k - 1) (ctx ?w), ndial := Suc (ndial ?w),
              trace := trace ?w @ [EvDial dialer (Inl (e n))]\<rparr>)"
  proof (rule dialHost_loop_failed_step)
    show "ctx ?w \<noteq> Some 0" using Suc.prems by (auto simp: after_failed_dials_def)
    show "dial_oracle ?w (ndial ?w) = Some (e n)"
      using Suc.prems by (simp add: after_failed_dials_def)
    show "Suc n < 10" using Suc.prems by simp
  qed
  also have "(?w\<lparr>ctx := map_option (\<lambda>k. k - 1) (ctx ?w), ndial := Suc (ndial ?w),
              trace := trace ?w @ [EvDial dialer (Inl (e n))]\<rparr>) = after_failed_dials dialer e (Suc n) w"
    by (simp add: after_failed_dials_def option.map_comp comp_def)
  finally show ?case .
qed

lemma dialHost_cancelled_after:
  assumes "n < 10" "\<forall>j<n. dial_oracle w (ndial w + j) = Some (e j)" "ctx w = Some n"
  shows "dialHost dialer w = ((None, None), after_failed_dials dialer e n w)"
proof -
  have "dialHost_loop dialer 0 w = dialHost_loop dialer (of_nat n) (after_failed_dials dialer e n w)"
    using assms by (intro dialHost_loop_failed_prefix) auto
  also have "\<dots> = ((None, None), after_failed_dials dialer e n w)"
    using assms by (intro dialHost_loop_cancelled) simp
  finally show ?thesis by (simp add: dialHost_def)
qed

lemma dialHost_success_after:
  assumes "n < 10" "\<forall>j<n. dial_oracle w (ndial w + j) = Some (e j)"
    "dial_oracle w (ndial w + n) = None"
    "ctx w = None \<or> (\<exists>k. ctx w = Some k \<and> n < k)"
  shows "dialHost dialer w =
         ((Some (ndial w + n), None),
          (after_failed_dials dialer e n w)
            \<lparr>ctx := map_option (\<lambda>k. k - Suc n) (ctx w), ndial := Suc (ndial w + n),
              trace := trace w @ map (\<lambda>j. EvDial dialer (Inl (e j))) [0..<n]
                       @ [EvDial dialer (Inr (ndial w + n))]\<rparr>)"
proof -
  let ?w = "after_failed_dials dialer e n w"
  have "dialHost_loop dialer 0 w = dialHost_loop dialer (of_nat n) ?w"
    using assms by (intro dialHost_loop_failed_prefix) auto
  also have "\<dots> = ((Some (ndial ?w), None),
          ?w\<lparr>ctx := map_option (\<lambda>k. k - 1) (ctx ?w), ndial := Suc (ndial ?w),
            trace := trace ?w @ [EvDial dialer (Inr (ndial ?w))]\<rparr>)"
    using assms by (intro dialHost_loop_success) auto
  finally show ?thesis
    by (simp add: dialHost_def option.map_comp comp_def)
qed

lemma dialHost_exhausted:
  assumes "\<forall>j<10. dial_oracle w (ndial w + j) = Some (e j)"
    "ctx w = None \<or> (\<exists>k. ctx w = Some k \<and> 10 \<le> k)"
  shows "dialHost dialer w =
         ((None, Some (ErrMaxConnectAttempts (Some (e 9)))), after_failed_dials dialer e 10 w)"
proof -
  let ?w = "after_failed_dials dialer e 9 w"
  have "dialHost_loop dialer 0 w = dialHost_loop dialer (of_nat 9) ?w"
    using assms by (intro dialHost_loop_failed_prefix) auto
  also have "\<dots> = ((None, Some (ErrMaxConnectAttempts (Some (e 9)))),
          ?w\<lparr>ctx := map_option (\<lambda>k. k - 1) (ctx ?w), ndial := Suc (ndial ?w),
            trace := trace ?w @ [EvDial dialer (Inl (e 9))]\<rparr>)"
    using assms by (simp only: of_nat_numeral) (intro dialHost_loop_last, auto)
  also have "?w\<lparr>ctx := map_option (\<lambda>k. k - 1) (ctx ?w), ndial := Suc (ndial ?w),
            trace := trace ?w @ [EvDial dialer (Inl (e 9))]\<rparr> = after_failed_dials dialer e (Suc 9) w"
    by (simp only: after_failed_dials_Suc)
  also have "Suc 9 = 10"
    by simp
  finally show ?thesis
    by (simp add: dialHost_def)
qed

lemma dialHost_connects:
  assumes "ctx w \<noteq> Some 0" "dial_oracle w (ndial w) = None"
  shows "dialHost dialer w =
         ((Some (ndial w), None),
          w\<lparr>ctx := map_option (\<lambda>k. k - 1) (ctx w), ndial := Suc (ndial w),
            trace := trace w @ [EvDial dialer (Inr (ndial w))]\<rparr>)"
  using assms by (simp add: dialHost_def dialHost_loop_success)

text \<open>
  What every call of \<open>dialHost\<close> leaves alone, what it can return, and what it does
  to the context.
\<close>

lemma dialHost_loop_frame:
  "dialHost_loop dialer a w = (r, w') \<Longrightarrow>
   dial_oracle w' = dial_oracle w \<and> send_oracle w' = send_oracle w \<and> nsend w' = nsend w
   \<and> ndial w \<le> ndial w'
   \<and> (\<exists>es. trace w' = trace w @ es \<and> (\<forall>x\<in>set es. \<exists>res. x = EvDial dialer res))"
proof (induction dialer a w arbitrary: r w' rule: dialHost_loop.induct)
  case (1 dialer sendAttempt w)
  show ?case
  proof (cases "ctx w = Some 0")
    case True
    with "1.prems" show ?thesis
      by (simp add: dialHost_loop_cancelled)
  next
    case False
    let ?w1 = "w\<lparr>ctx := map_option (\<lambda>k. k - 1) (ctx w)\<rparr>"
    have cd: "ctx_Done w = (False, ?w1)"
      using False by (rule ctx_Done_open)
    show ?thesis
    proof (cases "dial_oracle w (ndial w)")
      case None
      with "1.prems" False show ?thesis
        by (auto simp: dialHost_loop_success)
    next
      case (Some err)
      let ?w2 = "emit (EvDial dialer (Inl err)) (?w1\<lparr>ndial := Suc (ndial w)\<rparr>)"
      have d: "Dial dialer ?w1 = ((None, Some err), ?w2)"
        using Some by (simp add: Dial_def)
      show ?thesis
      proof (cases "sendAttempt + 1 = MaxReconnectAttempts")
        case True
        with "1.prems" cd d show ?thesis
          by (subst (asm) dialHost_loop.simps) auto
      next
        case ne: False
        from "1.prems" cd d ne have "dialHost_loop dialer (sendAttempt + 1) ?w2 = (r, w')"
          by (subst (asm) dialHost_loop.simps) simp
        from "1.IH" [OF cd [symmetric] refl d [symmetric] refl refl ne this]
        show ?thesis
          by auto
      qed
    qed
  qed
qed

lemma dialHost_loop_result:
  "dialHost_loop dialer a w = ((s, err), w') \<Longrightarrow>
   (s = None \<and> err = None \<and> ctx w' = Some 0)
   \<or> (\<exists>c. s = Some c \<and> err = None \<and> ndial w \<le> c \<and> ndial w' = Suc c
          \<and> (\<exists>es. trace w' = es @ [EvDial dialer (Inr c)]))
   \<or> (s = None \<and> (\<exists>e. err = Some (ErrMaxConnectAttempts (Some e))))"
proof (induction dialer a w arbitrary: s err w' rule: dialHost_loop.induct)
  case (1 dialer sendAttempt w)
  show ?case
  proof (cases "ctx w = Some 0")
    case True
    with "1.prems" show ?thesis
      by (simp add: dialHost_loop_cancelled)
  next
    case False
    let ?w1 = "w\<lparr>ctx := map_option (\<lambda>k. k - 1) (ctx w)\<rparr>"
    have cd: "ctx_Done w = (False, ?w1)"
      using False by (rule ctx_Done_open)
    show ?thesis
    proof (cases "dial_oracle w (ndial w)")
      case None
      with "1.prems" False show ?thesis
        by (auto simp: dialHost_loop_success)
    next
      case (Some e)
      let ?w2 = "emit (EvDial dialer (Inl e)) (?w1\<lparr>ndial := Suc (ndial w)\<rparr>)"
      have d: "Dial dialer ?w1 = ((None, Some e), ?w2)"
        using Some by (simp add: Dial_def)
      show ?thesis
      proof (cases "sendAttempt + 1 = MaxReconnectAttempts")
        case True
        with "1.prems" cd d show ?thesis
          by (subst (asm) dialHost_loop.simps) auto
      next
        case ne: False
        from "1.prems" cd d ne have "dialHost_loop dialer (sendAttempt + 1) ?w2 = ((s, err), w')"
          by (subst (asm) dialHost_loop.simps) simp
        from "1.IH" [OF cd [symmetric] refl d [symmetric] refl refl ne this]
        show ?thesis
          by auto
      qed
    qed
  qed
qed

lemma dialHost_loop_ctx:
  "dialHost_loop dialer a w = (r, w') \<Longrightarrow>
   (ctx w = None \<longrightarrow> ctx w' = None) \<and> (\<forall>k. ctx w = Some k \<longrightarrow> (\<exists>k'\<le>k. ctx w' = Some k'))"
proof (induction dialer a w arbitrary: r w' rule: dialHost_loop.induct)
  case (1 dialer sendAttempt w)
  show ?case
  proof (cases "ctx w = Some 0")
    case True
    with "1.prems" show ?thesis
      by (simp add: dialHost_loop_cancelled)
  next
    case False
    let ?w1 = "w\<lparr>ctx := map_option (\<lambda>k. k - 1) (ctx w)\<rparr>"
    have cd: "ctx_Done w = (False, ?w1)"
      using False by (rule ctx_Done_open)
    show ?thesis
    proof (cases "dial_oracle w (ndial w)")
      case None
      with "1.prems" False show ?thesis
        by (auto simp: dialHost_loop_success)
    next
      case (Some e)
      let ?w2 = "emit (EvDial dialer (Inl e)) (?w1\<lparr>ndial := Suc (ndial w)\<rparr>)"
      have d: "Dial dialer ?w1 = ((None, Some e), ?w2)"
        using Some by (simp add: Dial_def)
      show ?thesis
      proof (cases "sendAttempt + 1 = MaxReconnectAttempts")
        case True
        with "1.prems" cd d show ?thesis
          by (subst (asm) dialHost_loop.simps) auto
      next
        case ne: False
        from "1.prems" cd d ne have "dialHost_loop dialer (sendAttempt + 1) ?w2 = (r, w')"
          by (subst (asm) dialHost_loop.simps) simp
        from "1.IH" [OF cd [symmetric] refl d [symmetric] refl refl ne this]
        show ?thesis
          by (auto intro: le_trans)
      qed
    qed
  qed
qed

lemma dialHost_loop_dials:
  assumes "ctx w \<noteq> Some 0" "dialHost_loop dialer a w = (r, w')"
  shows "ndial w < ndial w'"
proof -
  let ?w1 = "w\<lparr>ctx := map_option (\<lambda>k. k - 1) (ctx w)\<rparr>"
  have cd: "ctx_Done w = (False, ?w1)"
    using assms(1) by (rule ctx_Done_open)
  show ?thesis
  proof (cases "dial_oracle w (ndial w)")
    case None
    with assms show ?thesis
      by (auto simp: dialHost_loop_success)
  next
    case (Some e)
    let ?w2 = "emit (EvDial dialer (Inl e)) (?w1\<lparr>ndial := Suc (ndial w)\<rparr>)"
    have d: "Dial dialer ?w1 = ((None, Some e), ?w2)"
      using Some by (simp add: Dial_def)
    show ?thesis
    proof (cases "a + 1 = MaxReconnectAttempts")
      case True
      with assms(2) cd d show ?thesis
        by (subst (asm) dialHost_loop.simps) auto
    next
      case False
      with assms(2) cd d have "dialHost_loop dialer (a + 1) ?w2 = (r, w')"
        by (subst (asm) dialHost_loop.simps) simp
      from dialHost_loop_frame [OF this] show ?thesis
        by simp
    qed
  qed
qed

lemma dialHost_events:
  assumes "dialHost dialer w = ((s, err), w')"
  shows "\<exists>es. trace w' = trace w @ es \<and> (\<forall>x\<in>set es. loop_event n0 x)"
proof -
  from dialHost_loop_frame [OF assms [unfolded dialHost_def]]
  obtain es where "trace w' = trace w @ es" "\<forall>x\<in>set es. \<exists>res. x = EvDial dialer res"
    by blast
  then show ?thesis
    by (intro exI [of _ es]) auto
qed

section \<open>One pass of the loop of sendMail\<close>

lemma sendMail_body_cancelled:
  "ctx w = Some 0 \<Longrightarrow> sendMail_body dialer s m ms_i w = (Return, s, w)"
  by (simp add: sendMail_body_def ctx_Done_cancelled)

lemma sendMail_body_render_failed:
  "ctx w \<noteq> Some 0 \<Longrightarrow> Generate m = Some err \<Longrightarrow>
   sendMail_body dialer s m ms_i w =
     (Continue, s, w\<lparr>ctx := map_option (\<lambda>k. k - 1) (ctx w),
                      trace := trace w @ [EvGenerate m, EvError m err]\<rparr>)"
  by (simp add: sendMail_body_def ctx_Done_open emit_def)

lemma sendMail_body_sent:
  assumes "ctx w \<noteq> Some 0" "Generate m = None"
  shows "sendMail_body dialer (Some c) m ms_i w =
    (let w2 = w\<lparr>ctx := map_option (\<lambda>k. k - 1) (ctx w), nsend := Suc (nsend w),
                  trace := trace w @ [EvGenerate m, EvSend c m]\<rparr> in
     case send_oracle w (nsend w) of
       None \<Rightarrow> (Continue, Some c, emit (EvSuccess m) w2)
     | Some err \<Rightarrow>
         (case err of
            TextprotoError code txt \<Rightarrow>
              (if 400 \<le> code \<and> code \<le> 499
               then (Continue, Some c, emit (EvReset c) (emit (EvBackoff m err) w2))
               else (Continue, Some c, emit (EvReset c) (emit (EvError m err) w2)))
          | _ \<Rightarrow>
              (case dialHost dialer w2 of
                 ((sender', Some err'), w3) \<Rightarrow> (Break, sender', errorMail err' ms_i w3)
               | ((sender', None), w3) \<Rightarrow> (Continue, sender', emit (EvBackoff m err) w3))))"
  using assms
  by (auto simp: sendMail_body_def ctx_Done_open gomail_Send_def emit_def Let_def
           split: option.splits error.splits)

lemma sendMail_body_events:
  assumes body: "sendMail_body dialer s m ms_i w = (k, s', w')"
    and inv: "sender_ok n0 s w" and n0: "n0 \<le> ndial w"
  shows "k \<noteq> Panic \<and> (k = Continue \<longrightarrow> sender_ok n0 s' w') \<and> n0 \<le> ndial w'
         \<and> (\<exists>es. trace w' = trace w @ es \<and> (\<forall>x\<in>set es. loop_event n0 x))
         \<and> (ctx w = None \<longrightarrow> ctx w' = None) \<and> ndial w \<le> ndial w'"
proof (cases "ctx w = Some 0")
  case True
  with body inv n0 show ?thesis
    by (simp add: sendMail_body_cancelled)
next
  case open_ctx: False
  with inv obtain c where s: "s = Some c" and c: "n0 \<le> c"
    by (auto simp: sender_ok_def split: option.splits)
  show ?thesis
  proof (cases "Generate m")
    case (Some err)
    with body open_ctx s c n0 show ?thesis
      by (auto simp: sendMail_body_render_failed sender_ok_def)
  next
    case None
    let ?w2 = "w\<lparr>ctx := map_option (\<lambda>k. k - 1) (ctx w), nsend := Suc (nsend w),
                  trace := trace w @ [EvGenerate m, EvSend c m]\<rparr>"
    note sent = sendMail_body_sent [OF open_ctx None, of dialer c ms_i]
    show ?thesis
    proof (cases "send_oracle w (nsend w)")
      case ok: None
      with body s c n0 sent show ?thesis
        by (auto simp: sender_ok_def Let_def emit_def)
    next
      case failed: (Some err)
      show ?thesis
      proof (cases "\<exists>code txt. err = TextprotoError code txt")
        case True
        with body s c n0 sent failed show ?thesis
          by (auto simp: sender_ok_def Let_def emit_def split: if_splits)
      next
        case False
        obtain s2 e2 w3 where dh: "dialHost dialer ?w2 = ((s2, e2), w3)"
          by (metis surj_pair)
        from dialHost_events [OF dh, of n0]
        obtain es where es: "trace w3 = trace ?w2 @ es" "\<forall>x\<in>set es. loop_event n0 x"
          by blast
        note res = dialHost_loop_result [OF dh [unfolded dialHost_def]]
        note fr = dialHost_loop_frame [OF dh [unfolded dialHost_def]]
        note cx = dialHost_loop_ctx [OF dh [unfolded dialHost_def]]
        have w3: "n0 \<le> ndial w3" "ctx w = None \<longrightarrow> ctx w3 = None" "ndial w \<le> ndial w3"
          using fr cx n0 by auto
        show ?thesis
        proof (cases e2)
          case None
          with False failed sent dh body s
          have r: "k = Continue" "s' = s2" "w' = emit (EvBackoff m err) w3"
            by (cases err; simp add: Let_def)+
          have "sender_ok n0 s2 w'"
            using res None n0 r by (auto simp: sender_ok_def)
          moreover have "trace w' = trace w @ ([EvGenerate m, EvSend c m] @ es @ [EvBackoff m err])"
            using es r by simp
          moreover have "\<forall>x\<in>set ([EvGenerate m, EvSend c m] @ es @ [EvBackoff m err]). loop_event n0 x"
            using es c by auto
          ultimately show ?thesis
            using r w3 by (intro conjI exI [of _ "[EvGenerate m, EvSend c m] @ es @ [EvBackoff m err]"]) auto
        next
          case (Some e3)
          with False failed sent dh body s
          have r: "k = Break" "s' = s2" "w' = errorMail e3 ms_i w3"
            by (cases err; simp add: Let_def)+
          have "trace w' = trace w @ ([EvGenerate m, EvSend c m] @ es @ map (\<lambda>x. EvError x e3) ms_i)"
            using es r by (simp add: errorMail_eq)
          moreover have "\<forall>x\<in>set ([EvGenerate m, EvSend c m] @ es @ map (\<lambda>x. EvError x e3) ms_i). loop_event n0 x"
            using es c by auto
          ultimately show ?thesis
            using r w3
            by (intro conjI exI [of _ "[EvGenerate m, EvSend c m] @ es @ map (\<lambda>x. EvError x e3) ms_i"])
               (auto simp: errorMail_eq)
        qed
      qed
    qed
  qed
qed

text \<open>
  The loop never panics, it only adds events a loop may add, and it leaves a context
  that is never cancelled as it is.
\<close>

lemma sendMail_loop_events:
  assumes "sender_ok n0 s w" and "n0 \<le> ndial w"
  shows "fst (sendMail_loop dialer s ms w) = Returned
         \<and> (\<exists>es. trace (snd (sendMail_loop dialer s ms w)) = trace w @ es
                \<and> (\<forall>x\<in>set es. loop_event n0 x))
         \<and> (ctx w = None \<longrightarrow> ctx (snd (sendMail_loop dialer s ms w)) = None)
         \<and> ndial w \<le> ndial (snd (sendMail_loop dialer s ms w))"
  using assms
proof (induction ms arbitrary: s w)
  case Nil
  then show ?case by simp
next
  case (Cons m ms)
  obtain k s' w' where body: "sendMail_body dialer s m (m # ms) w = (k, s', w')"
    by (metis surj_pair)
  note b = sendMail_body_events [OF body Cons.prems]
  then obtain es where es: "trace w' = trace w @ es" "\<forall>x\<in>set es. loop_event n0 x"
    by blast
  show ?case
  proof (cases "k = Continue")
    case True
    with b have "sender_ok n0 s' w'" "n0 \<le> ndial w'"
      by simp_all
    from Cons.IH [OF this]
    obtain es' where es': "fst (sendMail_loop dialer s' ms w') = Returned"
      "trace (snd (sendMail_loop dialer s' ms w')) = trace w' @ es'"
      "\<forall>x\<in>set es'. loop_event n0 x"
      "ctx w' = None \<longrightarrow> ctx (snd (sendMail_loop dialer s' ms w')) = None"
      "ndial w' \<le> ndial (snd (sendMail_loop dialer s' ms w'))"
      by auto
    have eq: "sendMail_loop dialer s (m # ms) w = sendMail_loop dialer s' ms w'"
      using body True by simp
    have "trace (snd (sendMail_loop dialer s' ms w')) = trace w @ (es @ es')"
      using es es' by simp
    moreover have "\<forall>x\<in>set (es @ es'). loop_event n0 x"
      using es es' by auto
    ultimately have "\<exists>es. trace (snd (sendMail_loop dialer s' ms w')) = trace w @ es
                \<and> (\<forall>x\<in>set es. loop_event n0 x)"
      by (intro exI [of _ "es @ es'"] conjI)
    then show ?thesis
      unfolding eq using es' b by simp
  next
    case False
    with b body have "sendMail_loop dialer s (m # ms) w = (Returned, w')"
      by (cases k) simp_all
    with b es show ?thesis
      by auto
  qed
qed

text \<open>
  One outcome for each message, in batch order: the outcomes of a run of the loop are
  those of a prefix of the batch, and of the whole batch when the context is never
  cancelled.
\<close>

lemma outcomes_simps [simp]:
  "outcomes [] = []" "outcomes (e # es) = outcome_of e @ outcomes es"
  "outcomes (es @ es') = outcomes es @ outcomes es'"
  by (simp_all add: outcomes_def)

lemma outcomes_errors [simp]: "outcomes (map (\<lambda>m. EvError m err) ms) = ms"
  by (induction ms) simp_all

lemma outcomes_dials:
  "\<forall>x\<in>set es. \<exists>res. x = EvDial dialer res \<Longrightarrow> outcomes es = []"
  by (induction es) auto

lemma sendMail_body_outcomes:
  assumes body: "sendMail_body dialer s m ms_i w = (k, s', w')"
  shows "\<exists>es. trace w' = trace w @ es
           \<and> outcomes es = (case k of Continue \<Rightarrow> [m] | Break \<Rightarrow> ms_i | Return \<Rightarrow> [] | Panic \<Rightarrow> [])"
proof (cases "ctx w = Some 0")
  case True
  with body show ?thesis
    by (simp add: sendMail_body_cancelled)
next
  case open_ctx: False
  show ?thesis
  proof (cases "Generate m")
    case (Some err)
    with body open_ctx show ?thesis
      by (auto simp: sendMail_body_render_failed)
  next
    case gen: None
    show ?thesis
    proof (cases s)
      case None
      with body open_ctx gen show ?thesis
        by (auto simp: sendMail_body_def ctx_Done_open emit_def)
    next
      case (Some c)
      let ?w2 = "w\<lparr>ctx := map_option (\<lambda>k. k - 1) (ctx w), nsend := Suc (nsend w),
                  trace := trace w @ [EvGenerate m, EvSend c m]\<rparr>"
      note sent = sendMail_body_sent [OF open_ctx gen, of dialer c ms_i]
      show ?thesis
      proof (cases "send_oracle w (nsend w)")
        case ok: None
        with body Some sent show ?thesis
          by (auto simp: Let_def emit_def)
      next
        case failed: (Some err)
        show ?thesis
        proof (cases "\<exists>code txt. err = TextprotoError code txt")
          case True
          with body Some sent failed show ?thesis
            by (auto simp: Let_def emit_def split: if_splits)
        next
          case False
          obtain s2 e2 w3 where dh: "dialHost dialer ?w2 = ((s2, e2), w3)"
            by (metis surj_pair)
          from dialHost_loop_frame [OF dh [unfolded dialHost_def]]
          obtain ds where ds: "trace w3 = trace ?w2 @ ds" "\<forall>x\<in>set ds. \<exists>res. x = EvDial dialer res"
            by auto
          note od = outcomes_dials [OF ds(2)]
          show ?thesis
          proof (cases e2)
            case None
            with False failed sent dh body Some
            have r: "k = Continue" "w' = emit (EvBackoff m err) w3"
              by (cases err; simp add: Let_def)+
            have "trace w' = trace w @ ([EvGenerate m, EvSend c m] @ ds @ [EvBackoff m err])"
              using ds r by simp
            moreover have "outcomes ([EvGenerate m, EvSend c m] @ ds @ [EvBackoff m err]) = [m]"
              using od by simp
            ultimately show ?thesis
              using r by (intro exI [of _ "[EvGenerate m, EvSend c m] @ ds @ [EvBackoff m err]"]) simp
          next
            case (Some e3)
            with False failed sent dh body \<open>s = Some c\<close>
            have r: "k = Break" "w' = errorMail e3 ms_i w3"
              by (cases err; simp add: Let_def)+
            have "trace w' = trace w @ ([EvGenerate m, EvSend c m] @ ds @ map (\<lambda>x. EvError x e3) ms_i)"
              using ds r by (simp add: errorMail_eq)
            moreover have "outcomes ([EvGenerate m, EvSend c m] @ ds @ map (\<lambda>x. EvError x e3) ms_i) = ms_i"
              using od by simp
            ultimately show ?thesis
              using r by (intro exI [of _ "[EvGenerate m, EvSend c m] @ ds @ map (\<lambda>x. EvError x e3) ms_i"]) simp
          qed
        qed
      qed
    qed
  qed
qed


lemma sendMail_loop_outcomes_all:
  assumes "ctx w = None" "sender_ok n0 s w" "n0 \<le> ndial w"
  shows "\<exists>es. trace (snd (sendMail_loop dialer s ms w)) = trace w @ es \<and> outcomes es = ms"
  using assms
proof (induction ms arbitrary: s w)
  case Nil
  then show ?case by simp
next
  case (Cons m ms)
  obtain k s' w' where body: "sendMail_body dialer s m (m # ms) w = (k, s', w')"
    by (metis surj_pair)
  from sendMail_body_outcomes [OF body]
  obtain es where es: "trace w' = trace w @ es"
    "outcomes es = (case k of Continue \<Rightarrow> [m] | Break \<Rightarrow> m # ms | Return \<Rightarrow> [] | Panic \<Rightarrow> [])"
    by auto
  note b = sendMail_body_events [OF body Cons.prems(2,3)]
  have "k \<noteq> Return"
    using body Cons.prems(1)
    by (auto simp: sendMail_body_def ctx_Done_never Let_def
             split: option.splits prod.splits error.splits if_splits)
  show ?case
  proof (cases k)
    case Continue
    with b Cons.prems have "ctx w' = None" "sender_ok n0 s' w'" "n0 \<le> ndial w'"
      by simp_all
    from Cons.IH [OF this]
    obtain es' where es': "trace (snd (sendMail_loop dialer s' ms w')) = trace w' @ es'"
      "outcomes es' = ms"
      by auto
    have "trace (snd (sendMail_loop dialer s (m # ms) w)) = trace w @ (es @ es')"
      using body Continue es es' by simp
    moreover have "outcomes (es @ es') = m # ms"
      using es es' Continue by simp
    ultimately show ?thesis
      by blast
  next
    case Break
    with body es show ?thesis
      by (intro exI [of _ es]) simp
  next
    case Return
    with \<open>k \<noteq> Return\<close> show ?thesis by simp
  next
    case Panic
    with b show ?thesis by simp
  qed
qed

section \<open>sendMail and sendDelayedMail as a whole\<close>

lemma sendMail_dial_failed:
  "dialHost dialer w = ((s, Some err), w1) \<Longrightarrow> sendMail dialer ms w = (Returned, errorMail err ms w1)"
  by (simp add: sendMail_def split: option.splits)

lemma sendMail_nil_sender:
  "dialHost dialer w = ((None, None), w1) \<Longrightarrow> sendMail dialer ms w = (Panicked, w1)"
  by (simp add: sendMail_def)

lemma sendMail_connected:
  "dialHost dialer w = ((Some c, None), w1) \<Longrightarrow>
   sendMail dialer ms w =
     (fst (sendMail_loop dialer (Some c) ms w1), emit (EvClose c) (snd (sendMail_loop dialer (Some c) ms w1)))"
  by (simp add: sendMail_def split: prod.splits)

lemma loop_event_not_Close: "loop_event n0 x \<Longrightarrow> x \<noteq> EvClose c"
  by (cases x) auto

lemma sendMail_never_cancelled:
  assumes "ctx w = None"
  shows "fst (sendMail dialer ms w) = Returned \<and> ctx (snd (sendMail dialer ms w)) = None"
proof -
  obtain s err w1 where dh: "dialHost dialer w = ((s, err), w1)"
    by (metis surj_pair)
  note res = dialHost_loop_result [OF dh [unfolded dialHost_def]]
  have c1: "ctx w1 = None"
    using dialHost_loop_ctx [OF dh [unfolded dialHost_def]] assms by simp
  show ?thesis
  proof (cases err)
    case (Some e)
    with dh c1 show ?thesis
      by (simp add: sendMail_dial_failed errorMail_eq)
  next
    case None
    with res c1 obtain c where c: "s = Some c" "ndial w1 = Suc c"
      by auto
    then have "sender_ok c (Some c) w1" "c \<le> ndial w1"
      by (simp_all add: sender_ok_def)
    from sendMail_loop_events [OF this, of dialer ms] c1
    show ?thesis
      using dh None c by (simp add: sendMail_connected)
  qed
qed

lemma sendMail_sends_on_new_connection:
  "\<exists>es. trace (snd (sendMail dialer ms w)) = trace w @ es
        \<and> (\<forall>x m. EvSend x m \<in> set es \<longrightarrow> ndial w \<le> x)"
proof -
  obtain s err w1 where dh: "dialHost dialer w = ((s, err), w1)"
    by (metis surj_pair)
  note res = dialHost_loop_result [OF dh [unfolded dialHost_def]]
  from dialHost_loop_frame [OF dh [unfolded dialHost_def]]
  obtain ds where ds: "trace w1 = trace w @ ds" "\<forall>x\<in>set ds. \<exists>r. x = EvDial dialer r"
    "ndial w \<le> ndial w1"
    by auto
  show ?thesis
  proof (cases err)
    case (Some e)
    with dh ds show ?thesis
      by (intro exI [of _ "ds @ map (\<lambda>m. EvError m e) ms"])
         (auto simp: sendMail_dial_failed errorMail_eq)
  next
    case None
    show ?thesis
    proof (cases s)
      case no_sender: None
      with dh None ds show ?thesis
        by (intro exI [of _ ds]) (auto simp: sendMail_nil_sender)
    next
      case (Some c)
      with res None have c: "ndial w \<le> c"
        by simp
      then have "sender_ok (ndial w) (Some c) w1"
        by (simp add: sender_ok_def)
      from sendMail_loop_events [OF this ds(3), of dialer ms]
      obtain es where es: "trace (snd (sendMail_loop dialer (Some c) ms w1)) = trace w1 @ es"
        "\<forall>x\<in>set es. loop_event (ndial w) x"
        by auto
      have "\<forall>x m. EvSend x m \<in> set (ds @ es @ [EvClose c]) \<longrightarrow> ndial w \<le> x"
        using ds es by fastforce
      moreover have "trace (snd (sendMail dialer ms w)) = trace w @ (ds @ es @ [EvClose c])"
        using dh None Some es ds by (simp add: sendMail_connected)
      ultimately show ?thesis
        by blast
    qed
  qed
qed

lemma sendMail_dials:
  assumes "ctx w \<noteq> Some 0"
  shows "ndial w < ndial (snd (sendMail dialer ms w))"
proof -
  obtain s err w1 where dh: "dialHost dialer w = ((s, err), w1)"
    by (metis surj_pair)
  note res = dialHost_loop_result [OF dh [unfolded dialHost_def]]
  have lt: "ndial w < ndial w1"
    using dialHost_loop_dials [OF assms dh [unfolded dialHost_def]] .
  show ?thesis
  proof (cases err)
    case (Some e)
    with dh lt show ?thesis
      by (simp add: sendMail_dial_failed errorMail_eq)
  next
    case None
    show ?thesis
    proof (cases s)
      case no_sender: None
      with dh None lt show ?thesis
        by (simp add: sendMail_nil_sender)
    next
      case (Some c)
      with res None have "ndial w1 = Suc c"
        by simp
      then have "sender_ok c (Some c) w1" "c \<le> ndial w1"
        by (simp_all add: sender_ok_def)
      from sendMail_loop_events [OF this, of dialer ms] lt
      show ?thesis
        using dh None Some by (simp add: sendMail_connected)
    qed
  qed
qed

lemma sendDelayedMail_loop_never_cancelled:
  "ctx w = None \<Longrightarrow>
   sendDelayedMail_loop dialer ms w =
     (Returned, foldl (\<lambda>w m. snd (sendMail dialer [m] (emit EvTick w))) w ms)"
proof (induction ms arbitrary: w)
  case Nil
  then show ?case by simp
next
  case (Cons m ms)
  let ?w1 = "emit EvTick w"
  have c: "ctx ?w1 = None"
    using Cons.prems by simp
  from sendMail_never_cancelled [OF c, of dialer "[m]"]
  obtain w2 where w2: "sendMail dialer [m] ?w1 = (Returned, w2)" "ctx w2 = None"
    by (cases "sendMail dialer [m] ?w1") auto
  from Cons.IH [OF w2(2)] w2 Cons.prems show ?case
    by (simp add: ctx_Done_never)
qed

lemma sendDelayedMail_loop_prefix:
  "\<exists>k\<le>length ms. snd (sendDelayedMail_loop dialer ms w) =
     foldl (\<lambda>w m. snd (sendMail dialer [m] (emit EvTick (snd (ctx_Done w))))) w (take k ms)"
proof (induction ms arbitrary: w)
  case Nil
  then show ?case by simp
next
  case (Cons m ms)
  let ?step = "\<lambda>w m. snd (sendMail dialer [m] (emit EvTick (snd (ctx_Done w))))"
  show ?case
  proof (cases "ctx w = Some 0")
    case True
    then have "snd (sendDelayedMail_loop dialer (m # ms) w) = foldl ?step w (take 0 (m # ms))"
      by (simp add: ctx_Done_cancelled)
    then show ?thesis
      by blast
  next
    case False
    let ?w1 = "w\<lparr>ctx := map_option (\<lambda>k. k - 1) (ctx w)\<rparr>"
    have cd: "ctx_Done w = (False, ?w1)"
      using False by (rule ctx_Done_open)
    obtain ex w2 where sm: "sendMail dialer [m] (emit EvTick ?w1) = (ex, w2)"
      by (metis surj_pair)
    show ?thesis
    proof (cases ex)
      case Panicked
      with cd sm have "snd (sendDelayedMail_loop dialer (m # ms) w) = foldl ?step w (take 1 (m # ms))"
        by simp
      moreover have "(1::nat) \<le> length (m # ms)"
        by simp
      ultimately show ?thesis
        by blast
    next
      case Returned
      from Cons.IH [of w2] obtain k where k: "k \<le> length ms"
        "snd (sendDelayedMail_loop dialer ms w2) = foldl ?step w2 (take k ms)"
        by auto
      from cd sm Returned k(2)
      have "snd (sendDelayedMail_loop dialer (m # ms) w) = foldl ?step w (take (Suc k) (m # ms))"
        by simp
      moreover have "Suc k \<le> length (m # ms)"
        using k(1) by simp
      ultimately show ?thesis
        by blast
    qed
  qed
qed

lemmas run_simps =
  world_def world_connected_def mail_def sendMail_def dialHost_connects sendMail_body_sent
  sendMail_body_render_failed sendMail_body_cancelled Let_def emit_def errorMail_eq

text \<open>
  The product \<open>delay * time.Second\<close> stays a positive \<open>int64\<close> for every delay
  from 1 to 9223372036 seconds.
\<close>

lemma interval_positive:
  assumes "0 < sint delay" "sint delay \<le> 9223372036"
  shows "0 < sint (interval delay)"
proof -
  have s: "sint time_Second = 1000000000"
    by (simp add: time_Second_def)
  have range: "- (2 ^ 63) \<le> sint delay * 1000000000" "sint delay * 1000000000 < 2 ^ 63"
    using assms by simp_all
  have "sint (interval delay) = signed_take_bit 63 (sint delay * 1000000000)"
    by (simp add: interval_def sint_word_ariths s)
  also have "\<dots> = sint delay * 1000000000"
    using range by (simp add: signed_take_bit_int_eq_self)
  finally show ?thesis
    using assms by simp
qed

section \<open>The claims\<close>









text \<open>
  Claim C5 says that the connection live when \<open>sendMail\<close> ends is closed exactly
  once, also when a reconnection opened it.  What the code does: whenever the first
  \<open>dialHost\<close> returns a connection, \<open>sendMail\<close> returns, and the one \<open>Close\<close> of the
  whole run, its last event, is on that first connection.  A connection opened by
  a reconnection is never closed; the sample run below ends with connection 1 live and
  connection 0 closed.
\<close>

theorem sendMail_closes_first_sender:
  assumes "dialHost dialer w = ((Some c, None), w1)"
  shows "fst (sendMail dialer ms w) = Returned
         \<and> (\<exists>es. trace (snd (sendMail dialer ms w)) = trace w1 @ es @ [EvClose c]
                \<and> (\<forall>x. EvClose x \<notin> set es))"
proof -
  from dialHost_loop_result [OF assms [unfolded dialHost_def]]
  have "ndial w1 = Suc c"
    by simp
  then have "sender_ok c (Some c) w1" "c \<le> ndial w1"
    by (simp_all add: sender_ok_def)
  from sendMail_loop_events [OF this, of dialer ms]
  obtain es where es: "fst (sendMail_loop dialer (Some c) ms w1) = Returned"
    "trace (snd (sendMail_loop dialer (Some c) ms w1)) = trace w1 @ es"
    "\<forall>x\<in>set es. loop_event c x"
    by auto
  have "\<forall>x. EvClose x \<notin> set es"
    using es(3) loop_event_not_Close by blast
  with es show ?thesis
    by (simp add: sendMail_connected [OF assms])
qed

theorem sendMail_closes_first_sender_witness:
  "dialHost (Dialer 0)
     (world None (\<lambda>n. None) (\<lambda>n. if n = 0 then Some (OtherError ''EOF'') else None)) =
     ((Some 0, None),
      world_connected None (\<lambda>n. None) (\<lambda>n. if n = 0 then Some (OtherError ''EOF'') else None))
   \<and> sendMail (Dialer 0) [mail 1, mail 2]
     (world None (\<lambda>n. None) (\<lambda>n. if n = 0 then Some (OtherError ''EOF'') else None)) =
   (Returned,
    \<lparr>ctx = None, dial_oracle = \<lambda>n. None,
      send_oracle = \<lambda>n. if n = 0 then Some (OtherError ''EOF'') else None,
      ndial = 2, nsend = 2,
      trace = [EvDial (Dialer 0) (Inr 0), EvGenerate (mail 1), EvSend 0 (mail 1),
               EvDial (Dialer 0) (Inr 1), EvBackoff (mail 1) (OtherError ''EOF''),
               EvGenerate (mail 2), EvSend 1 (mail 2), EvSuccess (mail 2), EvClose 0]\<rparr>)
   \<and> (\<exists>es. trace (snd (sendMail (Dialer 0) [mail 1, mail 2]
          (world None (\<lambda>n. None) (\<lambda>n. if n = 0 then Some (OtherError ''EOF'') else None)))) =
          [EvDial (Dialer 0) (Inr 0)] @ es @ [EvClose 0]
        \<and> (\<forall>x. EvClose x \<notin> set es))"
proof -
  let ?w = "world None (\<lambda>n. None) (\<lambda>n. if n = 0 then Some (OtherError ''EOF'') else None)"
  let ?w1 = "world_connected None (\<lambda>n. None) (\<lambda>n. if n = 0 then Some (OtherError ''EOF'') else None)"
  have h: "dialHost (Dialer 0) ?w = ((Some 0, None), ?w1)"
    by (simp add: run_simps)
  have run: "sendMail (Dialer 0) [mail 1, mail 2] ?w =
   (Returned,
    \<lparr>ctx = None, dial_oracle = \<lambda>n. None,
      send_oracle = \<lambda>n. if n = 0 then Some (OtherError ''EOF'') else None,
      ndial = 2, nsend = 2,
      trace = [EvDial (Dialer 0) (Inr 0), EvGenerate (mail 1), EvSend 0 (mail 1),
               EvDial (Dialer 0) (Inr 1), EvBackoff (mail 1) (OtherError ''EOF''),
               EvGenerate (mail 2), EvSend 1 (mail 2), EvSuccess (mail 2), EvClose 0]\<rparr>)"
    by (simp add: run_simps)
  from sendMail_closes_first_sender [OF h, of "[mail 1, mail 2]"]
  have "\<exists>es. trace (snd (sendMail (Dialer 0) [mail 1, mail 2] ?w)) =
          [EvDial (Dialer 0) (Inr 0)] @ es @ [EvClose 0] \<and> (\<forall>x. EvClose x \<notin> set es)"
    by (simp add: world_connected_def)
  with h run show ?thesis
    by simp
qed

text \<open>
  Claim C6.  \<open>dialHost\<close> looks at the context before each attempt: with the context
  cancelled it returns nil and nil at once, and with the context cancelled after
  \<open>n\<close> failed attempts it returns nil and nil after these \<open>n\<close>.  It dials again
  after a failure: when \<open>n < 10\<close> attempts fail and the next succeeds, it returns
  that connection.  When ten attempts fail it returns \<open>ErrMaxConnectAttempts\<close>
  wrapping the error of the tenth, having dialled exactly ten times.
\<close>

theorem dialHost_attempt_ceiling:
  "(ctx w = Some 0 \<longrightarrow> dialHost dialer w = ((None, None), w))
   \<and> (n < 10 \<and> (\<forall>j<n. dial_oracle w (ndial w + j) = Some (e j)) \<and> ctx w = Some n \<longrightarrow>
        fst (dialHost dialer w) = (None, None)
        \<and> ndial (snd (dialHost dialer w)) = ndial w + n)
   \<and> (n < 10 \<and> (\<forall>j<n. dial_oracle w (ndial w + j) = Some (e j))
        \<and> dial_oracle w (ndial w + n) = None
        \<and> (ctx w = None \<or> (\<exists>k. ctx w = Some k \<and> n < k)) \<longrightarrow>
        fst (dialHost dialer w) = (Some (ndial w + n), None)
        \<and> ndial (snd (dialHost dialer w)) = ndial w + n + 1)
   \<and> ((\<forall>j<10. dial_oracle w (ndial w + j) = Some (e j))
        \<and> (ctx w = None \<or> (\<exists>k. ctx w = Some k \<and> 10 \<le> k)) \<longrightarrow>
        fst (dialHost dialer w) = (None, Some (ErrMaxConnectAttempts (Some (e 9))))
        \<and> ndial (snd (dialHost dialer w)) = ndial w + 10
        \<and> trace (snd (dialHost dialer w)) =
            trace w @ map (\<lambda>j. EvDial dialer (Inl (e j))) [0..<10])"
proof (intro conjI impI)
  assume "ctx w = Some 0"
  then show "dialHost dialer w = ((None, None), w)"
    by (simp add: dialHost_def dialHost_loop_cancelled)
next
  assume a: "n < 10 \<and> (\<forall>j<n. dial_oracle w (ndial w + j) = Some (e j)) \<and> ctx w = Some n"
  then have "dialHost dialer w = ((None, None), after_failed_dials dialer e n w)"
    by (intro dialHost_cancelled_after) auto
  then show "fst (dialHost dialer w) = (None, None)"
    and "ndial (snd (dialHost dialer w)) = ndial w + n"
    by simp_all
next
  assume a: "n < 10 \<and> (\<forall>j<n. dial_oracle w (ndial w + j) = Some (e j))
        \<and> dial_oracle w (ndial w + n) = None
        \<and> (ctx w = None \<or> (\<exists>k. ctx w = Some k \<and> n < k))"
  note r = dialHost_success_after [of n w e dialer]
  from a show "fst (dialHost dialer w) = (Some (ndial w + n), None)"
    by (subst r) auto
  from a show "ndial (snd (dialHost dialer w)) = ndial w + n + 1"
    by (subst r) auto
next
  assume a: "(\<forall>j<10. dial_oracle w (ndial w + j) = Some (e j))
        \<and> (ctx w = None \<or> (\<exists>k. ctx w = Some k \<and> 10 \<le> k))"
  then have r: "dialHost dialer w =
         ((None, Some (ErrMaxConnectAttempts (Some (e 9)))), after_failed_dials dialer e 10 w)"
    by (intro dialHost_exhausted) auto
  show "fst (dialHost dialer w) = (None, Some (ErrMaxConnectAttempts (Some (e 9))))"
    and "ndial (snd (dialHost dialer w)) = ndial w + 10"
    and "trace (snd (dialHost dialer w)) =
            trace w @ map (\<lambda>j. EvDial dialer (Inl (e j))) [0..<10]"
    by (simp_all add: r)
qed

theorem dialHost_attempt_ceiling_witness:
  "dialHost (Dialer 0) (world (Some 0) (\<lambda>n. None) (\<lambda>n. None)) =
     ((None, None), world (Some 0) (\<lambda>n. None) (\<lambda>n. None))
   \<and> fst (dialHost (Dialer 0) (world (Some 3) (\<lambda>n. Some (OtherError ''refused'')) (\<lambda>n. None))) =
       (None, None)
   \<and> ndial (snd (dialHost (Dialer 0)
         (world (Some 3) (\<lambda>n. Some (OtherError ''refused'')) (\<lambda>n. None)))) = 3
   \<and> fst (dialHost (Dialer 0)
         (world None (\<lambda>n. if n < 3 then Some (OtherError ''refused'') else None) (\<lambda>n. None))) =
       (Some 3, None)
   \<and> ndial (snd (dialHost (Dialer 0)
         (world None (\<lambda>n. if n < 3 then Some (OtherError ''refused'') else None) (\<lambda>n. None)))) = 4
   \<and> fst (dialHost (Dialer 0) (world None (\<lambda>n. Some (OtherError ''refused'')) (\<lambda>n. None))) =
       (None, Some (ErrMaxConnectAttempts (Some (OtherError ''refused''))))
   \<and> ndial (snd (dialHost (Dialer 0)
         (world None (\<lambda>n. Some (OtherError ''refused'')) (\<lambda>n. None)))) = 10
   \<and> trace (snd (dialHost (Dialer 0)
         (world None (\<lambda>n. Some (OtherError ''refused'')) (\<lambda>n. None)))) =
       replicate 10 (EvDial (Dialer 0) (Inl (OtherError ''refused'')))"
proof -
  have r: "map (\<lambda>j::nat. EvDial (Dialer 0) (Inl (OtherError ''refused''))) [0..<10] =
           replicate 10 (EvDial (Dialer 0) (Inl (OtherError ''refused'')))"
    by (simp add: map_replicate_const)
  show ?thesis
    using dialHost_attempt_ceiling [of "world (Some 0) (\<lambda>n. None) (\<lambda>n. None)" "Dialer 0"
             0 "\<lambda>j. OtherError ''refused''"]
      dialHost_attempt_ceiling [of "world (Some 3) (\<lambda>n. Some (OtherError ''refused'')) (\<lambda>n. None)"
             "Dialer 0" 3 "\<lambda>j. OtherError ''refused''"]
      dialHost_attempt_ceiling [of
             "world None (\<lambda>n. if n < 3 then Some (OtherError ''refused'') else None) (\<lambda>n. None)"
             "Dialer 0" 3 "\<lambda>j. OtherError ''refused''"]
      dialHost_attempt_ceiling [of "world None (\<lambda>n. Some (OtherError ''refused'')) (\<lambda>n. None)"
             "Dialer 0" 0 "\<lambda>j. OtherError ''refused''"]
    by (simp add: world_def r)
qed

text \<open>
  Claim C7 says that the delivery loop returns as soon as it sees the context
  cancelled and notifies nothing from then on.  What the code does: when the first
  \<open>dialHost\<close> sees the cancellation, \<open>sendMail\<close> panics on \<open>defer sender.Close()\<close>
  with a nil sender; when the \<open>dialHost\<close> of a reconnection sees it, the message
  whose send failed still gets its \<open>Backoff\<close> call before the loop returns; when the
  check at the head of a pass sees it, the loop returns with nothing added.
\<close>

theorem sendMail_cancelled:
  "(ctx w = Some 0 \<longrightarrow> sendMail dialer ms w = (Panicked, w))
   \<and> (ctx w = Some 1 \<and> Generate m = None \<and> send_oracle w (nsend w) = Some err
        \<and> (\<forall>code txt. err \<noteq> TextprotoError code txt) \<longrightarrow>
      sendMail_loop dialer (Some c) (m # rest) w =
        (Returned, w\<lparr>ctx := Some 0, nsend := Suc (nsend w),
                      trace := trace w @ [EvGenerate m, EvSend c m, EvBackoff m err]\<rparr>))
   \<and> (ctx w = Some 0 \<longrightarrow> sendMail_loop dialer s ms w = (Returned, w))"
proof (intro conjI impI)
  assume "ctx w = Some 0"
  then have "dialHost dialer w = ((None, None), w)"
    by (simp add: dialHost_def dialHost_loop_cancelled)
  then show "sendMail dialer ms w = (Panicked, w)"
    by (rule sendMail_nil_sender)
next
  assume a: "ctx w = Some 1 \<and> Generate m = None \<and> send_oracle w (nsend w) = Some err
        \<and> (\<forall>code txt. err \<noteq> TextprotoError code txt)"
  let ?w2 = "w\<lparr>ctx := map_option (\<lambda>k. k - 1) (ctx w), nsend := Suc (nsend w),
              trace := trace w @ [EvGenerate m, EvSend c m]\<rparr>"
  let ?w3 = "w\<lparr>ctx := Some 0, nsend := Suc (nsend w),
                      trace := trace w @ [EvGenerate m, EvSend c m, EvBackoff m err]\<rparr>"
  have dh: "dialHost dialer ?w2 = ((None, None), ?w2)"
    using a by (simp add: dialHost_def dialHost_loop_cancelled)
  have "sendMail_body dialer (Some c) m (m # rest) w = (Continue, None, emit (EvBackoff m err) ?w2)"
    using a dh by (cases err) (simp_all add: sendMail_body_sent Let_def)
  moreover have "emit (EvBackoff m err) ?w2 = ?w3"
    using a by (simp add: emit_def)
  moreover have "sendMail_loop dialer None rest ?w3 = (Returned, ?w3)"
    by (cases rest) (simp_all add: sendMail_body_cancelled)
  ultimately show "sendMail_loop dialer (Some c) (m # rest) w = (Returned, ?w3)"
    by simp
next
  assume "ctx w = Some 0"
  then show "sendMail_loop dialer s ms w = (Returned, w)"
    by (cases ms) (simp_all add: sendMail_body_cancelled)
qed

theorem sendMail_cancelled_witness:
  "sendMail (Dialer 0) [mail 1, mail 2] (world (Some 0) (\<lambda>n. None) (\<lambda>n. None)) =
     (Panicked, world (Some 0) (\<lambda>n. None) (\<lambda>n. None))
   \<and> sendMail_loop (Dialer 0) (Some 0) [mail 1, mail 2]
       (world_connected (Some 1) (\<lambda>n. None) (\<lambda>n. Some (OtherError ''EOF''))) =
     (Returned,
      \<lparr>ctx = Some 0, dial_oracle = \<lambda>n. None, send_oracle = \<lambda>n. Some (OtherError ''EOF''),
        ndial = 1, nsend = 1,
        trace = [EvDial (Dialer 0) (Inr 0), EvGenerate (mail 1), EvSend 0 (mail 1),
                 EvBackoff (mail 1) (OtherError ''EOF'')]\<rparr>)
   \<and> sendMail_loop (Dialer 0) (Some 0) [mail 1, mail 2]
       (world_connected (Some 0) (\<lambda>n. None) (\<lambda>n. None)) =
     (Returned, world_connected (Some 0) (\<lambda>n. None) (\<lambda>n. None))"
  using sendMail_cancelled [where w = "world (Some 0) (\<lambda>n. None) (\<lambda>n. None)"
       and dialer = "Dialer 0" and ms = "[mail 1, mail 2]"]
    sendMail_cancelled [where w = "world_connected (Some 0) (\<lambda>n. None) (\<lambda>n. None)"
       and dialer = "Dialer 0" and ms = "[mail 1, mail 2]" and s = "Some 0"]
    sendMail_cancelled [where w = "world_connected (Some 1) (\<lambda>n. None) (\<lambda>n. Some (OtherError ''EOF''))"
       and m = "mail 1" and err = "OtherError ''EOF''" and dialer = "Dialer 0" and c = 0
       and rest = "[mail 2]"]
  by (simp add: world_def world_connected_def mail_def)

text \<open>
  Claim C8 says that \<open>Send\<close> signs the serialised JSON body and returns an error
  exactly when serialisation, the transport or the status fails.  What the code does:
  the request it hands to \<open>client.Do\<close> is a POST of the serialised body with the JSON
  content type, and its signature header is the hexadecimal HMAC of \<open>data\<close> as it
  came in, not of the serialised body; and when the URL does not parse, \<open>Send\<close>
  panics on the nil request and returns nothing.
\<close>

theorem Send_signs_data:
  "(json_Marshal env data = Inr jsonData \<and> url_Parse env url = None \<longrightarrow>
      (\<exists>r. snd (Send env url secret data) = [r]
          \<and> Method r = ''POST'' \<and> URL r = url \<and> Body r = jsonData
          \<and> Header r SignatureHeader = Some (hex_EncodeToString (hmac_sha256 env secret data))
          \<and> Header r ''Content-Type'' = Some ''application/json''))
   \<and> (json_Marshal env data = Inr jsonData \<and> url_Parse env url = Some err \<longrightarrow>
        Send env url secret data = (SendPanicked, []))"
  by (auto simp: Send_def http_NewRequest_def sign_def Header_Set_def Let_def SignatureHeader_def
           split: sum.splits)

theorem Send_signs_data_witness:
  "(\<exists>r. snd (Send env0 ''http://example.test/hook'' ''k'' ''hi'') = [r]
        \<and> Body r = ''[hi]'' \<and> Header r SignatureHeader = Some ''6b6869'')
   \<and> hex_EncodeToString (hmac_sha256 env0 ''k'' ''[hi]'') = ''6b5b68695d''
   \<and> Send env0 '':'' ''k'' ''hi'' = (SendPanicked, [])"
proof -
  have hex1: "hex_EncodeToString ''khi'' = ''6b6869''"
    by (simp add: hex_EncodeToString_def hex_digit_def)
  have hex2: "hex_EncodeToString ''k[hi]'' = ''6b5b68695d''"
    by (simp add: hex_EncodeToString_def hex_digit_def)
  from Send_signs_data [where env = env0 and data = "''hi''" and jsonData = "''[hi]''"
      and url = "''http://example.test/hook''" and secret = "''k''"]
  have "\<exists>r. snd (Send env0 ''http://example.test/hook'' ''k'' ''hi'') = [r]
        \<and> Body r = ''[hi]'' \<and> Header r SignatureHeader = Some ''6b6869''"
    by (auto simp: env0_def hex1)
  moreover from Send_signs_data [where env = env0 and data = "''hi''" and jsonData = "''[hi]''"
      and url = "'':''" and secret = "''k''" and err = "OtherError ''missing protocol scheme''"]
  have "Send env0 '':'' ''k'' ''hi'' = (SendPanicked, [])"
    by (simp add: env0_def)
  ultimately show ?thesis
    by (simp add: env0_def hex2)
qed

text \<open>
  Claim C9, amended.  The claim speaks of every batch with a positive pacing interval;
  the wrapper computes the interval as \<open>delay * time.Second\<close> in \<open>int64\<close>, and the
  statement holds where that product is positive, which it is for every delay from 1
  to 9223372036 seconds.  There, with a context that is never cancelled,
  \<open>sendDelayedMail\<close> returns having run, for each message in batch order, one tick
  and then \<open>sendMail\<close> on the slice of that message alone; whatever the context
  does, it has run just that for the first \<open>k\<close> messages of the batch, for some
  \<open>k\<close>.  Each such \<open>sendMail\<close> dials, unless the context is cancelled, and sends
  only over a connection dialled within it.  For a bundle with a first message whose
  \<open>GetDialer\<close> succeeds, \<open>Start\<close> runs \<open>sendDelayedMail\<close> when the delay is
  positive and \<open>sendMail\<close> otherwise.
\<close>

theorem sendDelayedMail_paces:
  "(0 < sint (interval delay) \<and> ctx w = None \<longrightarrow>
      sendDelayedMail dialer ms delay w =
        (Returned, foldl (\<lambda>w m. snd (sendMail dialer [m] (emit EvTick w))) w ms))
   \<and> (0 < sint (interval delay) \<longrightarrow>
        (\<exists>k\<le>length ms. snd (sendDelayedMail dialer ms delay w) =
           foldl (\<lambda>w m. snd (sendMail dialer [m] (emit EvTick (snd (ctx_Done w))))) w
             (take k ms)))
   \<and> (\<forall>w' m. (ctx w' \<noteq> Some 0 \<longrightarrow> ndial w' < ndial (snd (sendMail dialer [m] w')))
          \<and> (\<exists>es. trace (snd (sendMail dialer [m] w')) = trace w' @ es
                 \<and> (\<forall>x m'. EvSend x m' \<in> set es \<longrightarrow> ndial w' \<le> x)))
   \<and> (Mails mb = m0 # rest \<and> GetDialer m0 = Inr dialer \<longrightarrow>
        Start_go mb w0 =
          (if 0 < sint (Delay mb) then sendDelayedMail dialer (Mails mb) (Delay mb) w0
           else sendMail dialer (Mails mb) w0))
   \<and> (0 < sint delay \<and> sint delay \<le> 9223372036 \<longrightarrow> 0 < sint (interval delay))"
proof (intro conjI impI allI)
  assume "0 < sint (interval delay) \<and> ctx w = None"
  then show "sendDelayedMail dialer ms delay w =
        (Returned, foldl (\<lambda>w m. snd (sendMail dialer [m] (emit EvTick w))) w ms)"
    by (simp add: sendDelayedMail_def sendDelayedMail_loop_never_cancelled)
next
  assume "0 < sint (interval delay)"
  then show "\<exists>k\<le>length ms. snd (sendDelayedMail dialer ms delay w) =
           foldl (\<lambda>w m. snd (sendMail dialer [m] (emit EvTick (snd (ctx_Done w))))) w
             (take k ms)"
    using sendDelayedMail_loop_prefix [of ms dialer w]
    by (simp add: sendDelayedMail_def)
next
  fix w' :: World and m :: Mail
  assume "ctx w' \<noteq> Some 0"
  then show "ndial w' < ndial (snd (sendMail dialer [m] w'))"
    by (rule sendMail_dials)
next
  fix w' :: World and m :: Mail
  show "\<exists>es. trace (snd (sendMail dialer [m] w')) = trace w' @ es
                 \<and> (\<forall>x m'. EvSend x m' \<in> set es \<longrightarrow> ndial w' \<le> x)"
    by (rule sendMail_sends_on_new_connection)
next
  assume "Mails mb = m0 # rest \<and> GetDialer m0 = Inr dialer"
  then show "Start_go mb w0 =
          (if 0 < sint (Delay mb) then sendDelayedMail dialer (Mails mb) (Delay mb) w0
           else sendMail dialer (Mails mb) w0)"
    by (auto simp: Start_go_def)
next
  assume "0 < sint delay \<and> sint delay \<le> 9223372036"
  then show "0 < sint (interval delay)"
    by (simp add: interval_positive)
qed

theorem sendDelayedMail_paces_witness:
  "0 < sint (5 :: 64 word) \<and> sint (5 :: 64 word) \<le> 9223372036 \<and> 0 < sint (interval 5)
   \<and> sendDelayedMail (Dialer 0) [mail 1, mail 2] 5 (world None (\<lambda>n. None) (\<lambda>n. None)) =
     (Returned,
      \<lparr>ctx = None, dial_oracle = \<lambda>n. None, send_oracle = \<lambda>n. None, ndial = 2, nsend = 2,
        trace = [EvTick, EvDial (Dialer 0) (Inr 0), EvGenerate (mail 1), EvSend 0 (mail 1),
                 EvSuccess (mail 1), EvClose 0,
                 EvTick, EvDial (Dialer 0) (Inr 1), EvGenerate (mail 2), EvSend 1 (mail 2),
                 EvSuccess (mail 2), EvClose 1]\<rparr>)
   \<and> Start_go \<lparr>Delay = 5, Mails = [mail 1, mail 2]\<rparr> (world None (\<lambda>n. None) (\<lambda>n. None)) =
       sendDelayedMail (Dialer 0) [mail 1, mail 2] 5 (world None (\<lambda>n. None) (\<lambda>n. None))
   \<and> Start_go \<lparr>Delay = 0, Mails = [mail 1, mail 2]\<rparr> (world None (\<lambda>n. None) (\<lambda>n. None)) =
       sendMail (Dialer 0) [mail 1, mail 2] (world None (\<lambda>n. None) (\<lambda>n. None))
   \<and> ndial (world None (\<lambda>n. None) (\<lambda>n. None)) <
       ndial (snd (sendMail (Dialer 0) [mail 1] (world None (\<lambda>n. None) (\<lambda>n. None))))"
proof -
  let ?w = "world None (\<lambda>n. None) (\<lambda>n. None)"
  have pos: "0 < sint (interval 5)"
    by (simp add: interval_def time_Second_def)
  note t1 = sendDelayedMail_paces [where delay = 5 and w = ?w and dialer = "Dialer 0"
      and ms = "[mail 1, mail 2]" and mb = "\<lparr>Delay = 5, Mails = [mail 1, mail 2]\<rparr>"
      and ?m0.0 = "mail 1" and rest = "[mail 2]" and ?w0.0 = ?w]
  note t2 = sendDelayedMail_paces [where dialer = "Dialer 0"
      and mb = "\<lparr>Delay = 0, Mails = [mail 1, mail 2]\<rparr>"
      and ?m0.0 = "mail 1" and rest = "[mail 2]" and ?w0.0 = ?w]
  from t1 pos have "sendDelayedMail (Dialer 0) [mail 1, mail 2] 5 ?w =
     (Returned, foldl (\<lambda>w m. snd (sendMail (Dialer 0) [m] (emit EvTick w))) ?w [mail 1, mail 2])"
    by (simp add: world_def)
  moreover from t1 have "Start_go \<lparr>Delay = 5, Mails = [mail 1, mail 2]\<rparr> ?w =
       sendDelayedMail (Dialer 0) [mail 1, mail 2] 5 ?w"
    by (simp add: mail_def)
  moreover from t2 have "Start_go \<lparr>Delay = 0, Mails = [mail 1, mail 2]\<rparr> ?w =
       sendMail (Dialer 0) [mail 1, mail 2] ?w"
    by (simp add: mail_def)
  moreover from t1 [THEN conjunct2, THEN conjunct2, THEN conjunct1, THEN spec [where x = ?w],
      THEN spec [where x = "mail 1"], THEN conjunct1]
  have "ndial ?w < ndial (snd (sendMail (Dialer 0) [mail 1] ?w))"
    by (simp add: world_def)
  ultimately show ?thesis
    using pos by (simp add: run_simps)
qed

text \<open>
  The claim as it was stated fails where the product wraps: a delay of 9223372037
  seconds is positive, the interval computed from it is negative, \<open>time.NewTicker\<close>
  panics, and the goroutine of \<open>Start\<close> ends with no message delivered.
\<close>

theorem sendDelayedMail_paces_counterexample:
  "0 < sint (9223372037 :: 64 word)
   \<and> sint (interval 9223372037) = - 9223372036709551616
   \<and> sendDelayedMail (Dialer 0) [mail 1, mail 2] 9223372037
         (world None (\<lambda>n. None) (\<lambda>n. None)) =
       (Panicked, world None (\<lambda>n. None) (\<lambda>n. None))
   \<and> Start_go \<lparr>Delay = 9223372037, Mails = [mail 1, mail 2]\<rparr>
         (world None (\<lambda>n. None) (\<lambda>n. None)) =
       (Panicked, world None (\<lambda>n. None) (\<lambda>n. None))"
proof -
  have "sint (interval 9223372037) = - 9223372036709551616"
    by (simp add: interval_def time_Second_def)
  then show ?thesis
    by (simp add: sendDelayedMail_def Start_go_def mail_def)
qed

text \<open>
  Claim C10 says that an empty bundle is processed without an access out of bounds.
  What the code does: \<open>ms[0]\<close> is read before anything looks at the length, and on
  an empty bundle the goroutine panics.
\<close>

theorem Start_go_empty_bundle:
  "Start_go \<lparr>Delay = delay, Mails = []\<rparr> w = (Panicked, w)"
  by (simp add: Start_go_def)

end
